theory Spec2Isabelle
  imports Main
begin

section \<open>The program fib.py\<close>

text \<open>
  The repository is one Python file: an iterative producer \<^verbatim>\<open>fibonacci\<close> that
  prints the first terms of the sequence, a recursive evaluator
  \<^verbatim>\<open>fibonacci_recursive\<close> that returns one term, and a main block that calls
  both. Python integers are unbounded, so they are \<^typ>\<open>int\<close>. Standard output is
  the only state: it is a \<^typ>\<open>string\<close> (the bytes written so far) that every
  printing function takes and returns extended.

  A printing function also returns how it ended: \<open>None\<close> when it returned,
  \<open>Some e\<close> when it raised the exception \<open>e\<close>; what it wrote before raising
  stays written.

  The one exception the program can raise on integer input comes from the
  conversion of an integer to text inside \<^verbatim>\<open>print\<close>: CPython refuses to
  convert an integer of more than \<^verbatim>\<open>sys.int_max_str_digits\<close> decimal digits
  (4300 by default) and raises \<^verbatim>\<open>ValueError\<close>. It is part of the model.

  The interpreter's recursion limit and the memory of the machine are resources of
  one run, not of the program text, and are not part of the model.
\<close>

datatype error = ValueError

subsection \<open>The builtins the program calls\<close>

text \<open>
  \<^verbatim>\<open>str(i)\<close> for an integer: the decimal digits, most significant first, with
  a minus sign for a negative number and a single \<^verbatim>\<open>0\<close> for zero. When the
  number has more digits than the limit (the sign is not counted), the conversion
  raises \<^verbatim>\<open>ValueError\<close> instead.
\<close>

definition decimal_digits :: string where
  "decimal_digits = ''0123456789''"

definition digit_char :: "nat \<Rightarrow> char" where
  "digit_char d = decimal_digits ! (d mod 10)"

function str_nat :: "nat \<Rightarrow> string" where
  "str_nat m =
     (if m < 10 then [digit_char m]
      else str_nat (m div 10) @ [digit_char (m mod 10)])"
  by pat_completeness auto
termination
  by (relation "measure (\<lambda>m. m)") auto

declare str_nat.simps [simp del]

definition decimal :: "int \<Rightarrow> string" where
  "decimal i = (if i < 0 then CHR ''-'' # str_nat (nat (- i)) else str_nat (nat i))"

definition digits_of :: "int \<Rightarrow> nat" where
  "digits_of i = length (str_nat (nat \<bar>i\<bar>))"

definition int_max_str_digits :: nat where
  "int_max_str_digits = 4300"

definition str_int :: "int \<Rightarrow> error + string" where
  "str_int i =
     (if int_max_str_digits < digits_of i then Inl ValueError else Inr (decimal i))"

text \<open>The line feed that \<^verbatim>\<open>print\<close> writes when no \<^verbatim>\<open>end\<close> is given.\<close>

definition newline :: string where
  "newline = [CHR 0x0A]"

text \<open>
  \<^verbatim>\<open>print(x, end=e)\<close> writes the text of \<^verbatim>\<open>x\<close> and then \<^verbatim>\<open>e\<close>;
  \<^verbatim>\<open>print(x)\<close> has \<^verbatim>\<open>e\<close> the line feed, and \<^verbatim>\<open>print()\<close> writes the
  line feed alone. For a string \<^verbatim>\<open>x\<close> nothing can fail (\<open>print_end\<close>,
  \<open>print_line\<close>, \<open>print_empty\<close>). For an integer \<^verbatim>\<open>x\<close> the conversion
  comes first: when it raises, nothing is written by this call (\<open>print_int\<close>).
\<close>

definition print_end :: "string \<Rightarrow> string \<Rightarrow> string \<Rightarrow> string" where
  "print_end txt e out = out @ txt @ e"

definition print_line :: "string \<Rightarrow> string \<Rightarrow> string" where
  "print_line txt out = print_end txt newline out"

definition print_empty :: "string \<Rightarrow> string" where
  "print_empty out = print_end [] newline out"

definition print_int :: "int \<Rightarrow> string \<Rightarrow> string \<Rightarrow> error option \<times> string" where
  "print_int x e out =
     (case str_int x of
        Inl err \<Rightarrow> (Some err, out)
      | Inr txt \<Rightarrow> (None, print_end txt e out))"

text \<open>
  \<^verbatim>\<open>range(n)\<close> for an integer \<^verbatim>\<open>n\<close>: the integers from 0 up to
  \<^verbatim>\<open>n - 1\<close>, none when \<^verbatim>\<open>n\<close> is zero or negative.
\<close>

definition range_py :: "int \<Rightarrow> int list" where
  "range_py n = [0 .. n - 1]"

subsection \<open>The iterative producer\<close>

text \<open>
  \<^verbatim>\<open>
  def fibonacci(n):
      a, b = 0, 1
      for i in range(n):
          print(a, end=" ")
          a, b = b, a + b
      print()
  \<close>
  The loop runs once for each element of the range; its state is the pair of
  accumulators and the output. An exception raised by the \<^verbatim>\<open>print\<close> in the
  body ends the loop and the function at once: the final \<^verbatim>\<open>print()\<close> does not
  run.
\<close>

fun fibonacci_loop ::
  "int list \<Rightarrow> int \<Rightarrow> int \<Rightarrow> string \<Rightarrow> error option \<times> string" where
  "fibonacci_loop [] a b out = (None, out)"
| "fibonacci_loop (i # rest) a b out =
     (case print_int a '' '' out of
        (Some err, out') \<Rightarrow> (Some err, out')
      | (None, out') \<Rightarrow> fibonacci_loop rest b (a + b) out')"

definition fibonacci :: "int \<Rightarrow> string \<Rightarrow> error option \<times> string" where
  "fibonacci n out =
     (case fibonacci_loop (range_py n) 0 1 out of
        (Some err, out') \<Rightarrow> (Some err, out')
      | (None, out') \<Rightarrow> (None, print_empty out'))"

subsection \<open>The recursive evaluator\<close>

text \<open>
  \<^verbatim>\<open>
  def fibonacci_recursive(n):
      if n <= 0:
          return 0
      elif n == 1:
          return 1
      else:
          return fibonacci_recursive(n-1) + fibonacci_recursive(n-2)
  \<close>
\<close>

function fibonacci_recursive :: "int \<Rightarrow> int" where
  "fibonacci_recursive n =
     (if n \<le> 0 then 0
      else if n = 1 then 1
      else fibonacci_recursive (n - 1) + fibonacci_recursive (n - 2))"
  by pat_completeness auto
termination
  by (relation "measure (\<lambda>n. nat n)") auto

declare fibonacci_recursive.simps [simp del]

subsection \<open>The main block\<close>

text \<open>
  \<^verbatim>\<open>
  print("Iterative Fibonacci:")
  fibonacci(10)
  print("Recursive Fibonacci:")
  for i in range(10):
      print(fibonacci_recursive(i), end=" ")
  print()
  \<close>
\<close>

fun main_loop :: "int list \<Rightarrow> string \<Rightarrow> error option \<times> string" where
  "main_loop [] out = (None, out)"
| "main_loop (i # rest) out =
     (case print_int (fibonacci_recursive i) '' '' out of
        (Some err, out') \<Rightarrow> (Some err, out')
      | (None, out') \<Rightarrow> main_loop rest out')"

definition main_block :: "string \<Rightarrow> error option \<times> string" where
  "main_block out0 =
     (let out1 = print_line ''Iterative Fibonacci:'' out0 in
      case fibonacci 10 out1 of
        (Some err, out2) \<Rightarrow> (Some err, out2)
      | (None, out2) \<Rightarrow>
          (let out3 = print_line ''Recursive Fibonacci:'' out2 in
           case main_loop (range_py 10) out3 of
             (Some err, out4) \<Rightarrow> (Some err, out4)
           | (None, out4) \<Rightarrow> (None, print_empty out4)))"

subsection \<open>The recursive evaluator with a bound on the call depth\<close>

text \<open>
  The same body, run with a bound on the depth of nested calls: with no depth left
  a call gives no result, and a call that needs a result of a nested call that has
  none has none itself. It does not presuppose that the recursion ends.
\<close>

fun fibonacci_recursive_depth :: "nat \<Rightarrow> int \<Rightarrow> int option" where
  "fibonacci_recursive_depth 0 n = None"
| "fibonacci_recursive_depth (Suc d) n =
     (if n \<le> 0 then Some 0
      else if n = 1 then Some 1
      else (case fibonacci_recursive_depth d (n - 1) of
              None \<Rightarrow> None
            | Some x \<Rightarrow>
                (case fibonacci_recursive_depth d (n - 2) of
                   None \<Rightarrow> None
                 | Some y \<Rightarrow> Some (x + y))))"

subsection \<open>Reading the output\<close>

text \<open>
  The specification speaks of space-separated integers and of the k-th printed
  value. Both are read off the bytes with Python's own string operations:
  \<^verbatim>\<open>sep.join(words)\<close> and \<^verbatim>\<open>text.split(" ")\<close>, the split at every
  occurrence of one separator character (it always gives at least one word). A word
  is read back as an integer by \<open>read_int\<close>: an optional minus sign and then one
  or more decimal digits; any other text has no value. The k-th printed value of
  an output is the value of its k-th word, and there is none when the output has
  no k-th word or that word is not a numeral.
\<close>

fun join_py :: "string \<Rightarrow> string list \<Rightarrow> string" where
  "join_py sep [] = []"
| "join_py sep [w] = w"
| "join_py sep (w # v # ws) = w @ sep @ join_py sep (v # ws)"

fun split_py :: "char \<Rightarrow> string \<Rightarrow> string list" where
  "split_py c [] = [[]]"
| "split_py c (x # xs) =
     (if x = c then [] # split_py c xs
      else (case split_py c xs of
              [] \<Rightarrow> [[x]]
            | w # ws \<Rightarrow> (x # w) # ws))"

definition digit_value :: "char \<Rightarrow> nat option" where
  "digit_value c = map_of (zip decimal_digits [0 ..< 10]) c"

fun read_digits :: "nat \<Rightarrow> string \<Rightarrow> nat option" where
  "read_digits acc [] = Some acc"
| "read_digits acc (c # cs) =
     (case digit_value c of
        None \<Rightarrow> None
      | Some d \<Rightarrow> read_digits (10 * acc + d) cs)"

definition read_nat :: "string \<Rightarrow> nat option" where
  "read_nat s = (if s = [] then None else read_digits 0 s)"

definition read_int :: "string \<Rightarrow> int option" where
  "read_int s =
     (case s of
        [] \<Rightarrow> None
      | c # cs \<Rightarrow>
          (if c = CHR ''-'' then map_option (\<lambda>m. - int m) (read_nat cs)
           else map_option int (read_nat s)))"

definition nth_word :: "string list \<Rightarrow> nat \<Rightarrow> string option" where
  "nth_word ws k = (if k < length ws then Some (ws ! k) else None)"

definition printed_value :: "string \<Rightarrow> nat \<Rightarrow> int option" where
  "printed_value out k =
     (case nth_word (split_py CHR '' '' out) k of
        None \<Rightarrow> None
      | Some w \<Rightarrow> read_int w)"

section \<open>Facts about the recursive evaluator\<close>

lemma fib_rec_nonpos: "n \<le> 0 \<Longrightarrow> fibonacci_recursive n = 0"
  by (simp add: fibonacci_recursive.simps [of n])

lemma fib_rec_one: "fibonacci_recursive 1 = 1"
  by (simp add: fibonacci_recursive.simps [of 1])

lemma fib_rec_step:
  "2 \<le> k \<Longrightarrow>
   fibonacci_recursive k = fibonacci_recursive (k - 1) + fibonacci_recursive (k - 2)"
  by (simp add: fibonacci_recursive.simps [of k])

lemma fib_rec_ge0: "0 \<le> fibonacci_recursive n"
proof (induction n rule: fibonacci_recursive.induct)
  case (1 n)
  show ?case
  proof (cases "n \<le> 0 \<or> n = 1")
    case True
    then show ?thesis by (auto simp: fib_rec_nonpos fib_rec_one)
  next
    case False
    with 1 have "0 \<le> fibonacci_recursive (n - 1)" "0 \<le> fibonacci_recursive (n - 2)"
      by auto
    with False show ?thesis by (simp add: fib_rec_step)
  qed
qed

text \<open>
  Every recursive call is on a smaller argument, measured by \<open>nat\<close>, so every
  integer is in the accessible part of the call relation.
\<close>

lemma fib_rec_call_smaller: "fibonacci_recursive_rel m n \<Longrightarrow> nat m < nat n"
  by (cases rule: fibonacci_recursive_rel.cases) auto

lemma fib_rec_dom: "fibonacci_recursive_dom n"
proof (induction "nat n" arbitrary: n rule: less_induct)
  case less
  show ?case
  proof (rule accpI)
    fix m
    assume "fibonacci_recursive_rel m n"
    then have "nat m < nat n" by (rule fib_rec_call_smaller)
    then show "fibonacci_recursive_dom m" by (rule less)
  qed
qed

text \<open>A call depth above \<open>nat n\<close> is enough for the argument \<open>n\<close>.\<close>

lemma fib_rec_depth:
  "nat n < d \<Longrightarrow> fibonacci_recursive_depth d n = Some (fibonacci_recursive n)"
proof (induction d arbitrary: n)
  case 0
  then show ?case by simp
next
  case (Suc d)
  show ?case
  proof (cases "n \<le> 0 \<or> n = 1")
    case True
    then show ?thesis by (auto simp: fib_rec_nonpos fib_rec_one)
  next
    case False
    with Suc.prems have "nat (n - 1) < d" "nat (n - 2) < d" by auto
    then have "fibonacci_recursive_depth d (n - 1) = Some (fibonacci_recursive (n - 1))"
      "fibonacci_recursive_depth d (n - 2) = Some (fibonacci_recursive (n - 2))"
      by (auto intro: Suc.IH)
    with False show ?thesis by (simp add: fib_rec_step)
  qed
qed

text \<open>
  C2. For every integer \<open>n\<close> the evaluator follows the three cases in their order:
  0 when \<open>n \<le> 0\<close> (so also for every negative \<open>n\<close>, with no error), otherwise 1
  when \<open>n = 1\<close>, otherwise the sum of its values at \<open>n - 1\<close> and \<open>n - 2\<close>.
\<close>

theorem fibonacci_recursive_three_cases:
  "fibonacci_recursive n =
     (if n \<le> 0 then 0
      else if n = 1 then 1
      else fibonacci_recursive (n - 1) + fibonacci_recursive (n - 2))"
  by (rule fibonacci_recursive.simps)

theorem fibonacci_recursive_three_cases_witness:
  "fibonacci_recursive (- 5) = 0 \<and> fibonacci_recursive 1 = 1 \<and>
   fibonacci_recursive 7 = fibonacci_recursive 6 + fibonacci_recursive 5"
  using fibonacci_recursive_three_cases [of "- 5"] fibonacci_recursive_three_cases [of 1]
    fibonacci_recursive_three_cases [of 7]
  by simp

text \<open>
  C5. For every integer \<open>k \<ge> 2\<close> the evaluator satisfies the Fibonacci recurrence:
  its value at \<open>k\<close> is the sum of its values at \<open>k - 1\<close> and \<open>k - 2\<close>.
\<close>

theorem fibonacci_recursive_recurrence:
  assumes "2 \<le> k"
  shows "fibonacci_recursive k = fibonacci_recursive (k - 1) + fibonacci_recursive (k - 2)"
  using assms by (rule fib_rec_step)

theorem fibonacci_recursive_recurrence_witness:
  "(2::int) \<le> 2 \<and> fibonacci_recursive 2 = fibonacci_recursive 1 + fibonacci_recursive 0"
  using fibonacci_recursive_recurrence [of 2] by simp

text \<open>
  C6. The evaluator has the point values 0 at 0, 1 at 1, 0 at -5 and 55 at 10.
\<close>

theorem fibonacci_recursive_points:
  "fibonacci_recursive 0 = 0 \<and> fibonacci_recursive 1 = 1 \<and>
   fibonacci_recursive (- 5) = 0 \<and> fibonacci_recursive 10 = 55"
  by code_simp

text \<open>
  C8. The evaluator terminates on every integer, positive, zero or negative. Every
  integer is in the accessible part of the call relation (which relates the
  argument of a recursive call to the argument of the call that makes it), and the
  evaluation with call depth bounded by \<open>nat n + 1\<close> returns the evaluator's
  value. The recursion is well-founded because only an argument above 1 makes a
  recursive call, and each call is on a strictly smaller argument.
\<close>

theorem fibonacci_recursive_terminates:
  "fibonacci_recursive_dom n \<and>
   fibonacci_recursive_depth (Suc (nat n)) n = Some (fibonacci_recursive n) \<and>
   (\<forall>m. fibonacci_recursive_rel m n \<longrightarrow> 1 < n \<and> m < n)"
proof (intro conjI allI impI)
  show "fibonacci_recursive_dom n" by (rule fib_rec_dom)
  have "nat n < Suc (nat n)" by simp
  then show "fibonacci_recursive_depth (Suc (nat n)) n = Some (fibonacci_recursive n)"
    by (rule fib_rec_depth)
next
  fix m
  assume "fibonacci_recursive_rel m n"
  then show "1 < n" and "m < n"
    by (cases rule: fibonacci_recursive_rel.cases; simp)+
qed

theorem fibonacci_recursive_terminates_witness:
  "fibonacci_recursive_dom 4 \<and> fibonacci_recursive_depth 5 4 = Some 3 \<and>
   fibonacci_recursive_rel 3 4 \<and> (1::int) < 4 \<and> (3::int) < 4 \<and>
   fibonacci_recursive_dom (- 2) \<and> fibonacci_recursive_depth 1 (- 2) = Some 0"
proof -
  have "fibonacci_recursive 4 = 3" and "fibonacci_recursive (- 2) = 0"
    by code_simp+
  moreover have "Suc (nat 4) = 5" and "Suc (nat (- 2)) = 1"
    by simp_all
  moreover have "fibonacci_recursive_rel 3 4"
    using fibonacci_recursive_rel.intros(1) [of 4] by simp
  ultimately show ?thesis
    using fibonacci_recursive_terminates [of 4] fibonacci_recursive_terminates [of "- 2"]
    by simp
qed

text \<open>
  C9. The evaluator's value is non-negative at every integer, the negative ones
  included.
\<close>

theorem fibonacci_recursive_nonnegative: "0 \<le> fibonacci_recursive n"
  by (rule fib_rec_ge0)

text \<open>
  C10. The evaluator is monotonically non-decreasing over the integers: its value
  at \<open>n\<close> is at most its value at \<open>n + 1\<close>.
\<close>

theorem fibonacci_recursive_monotone: "fibonacci_recursive n \<le> fibonacci_recursive (n + 1)"
proof -
  consider "n \<le> 0" | "n = 1" | "2 \<le> n" by linarith
  then show ?thesis
  proof cases
    case 1
    then show ?thesis using fib_rec_ge0 [of "n + 1"] by (simp add: fib_rec_nonpos)
  next
    case 2
    have "fibonacci_recursive 2 = 1"
      using fib_rec_step [of 2] by (simp add: fib_rec_one fib_rec_nonpos)
    with 2 show ?thesis by (simp add: fib_rec_one)
  next
    case 3
    then have "fibonacci_recursive (n + 1) = fibonacci_recursive n + fibonacci_recursive (n - 1)"
      using fib_rec_step [of "n + 1"] by simp
    then show ?thesis using fib_rec_ge0 [of "n - 1"] by simp
  qed
qed

section \<open>Facts about the printed text\<close>

lemma range_py_empty: "n \<le> 0 \<Longrightarrow> range_py n = []"
  by (simp add: range_py_def)

lemma length_range_py: "length (range_py n) = nat n"
  by (simp add: range_py_def)

lemma set_range_py: "set (range_py n) = {0 ..< n}"
  by (auto simp: range_py_def)

lemma range_py_nth: "0 \<le> k \<Longrightarrow> k < n \<Longrightarrow> range_py n ! nat k = k"
  by (simp add: range_py_def)

subsection \<open>The evaluator is non-decreasing\<close>

lemma fib_rec_le_next: "fibonacci_recursive n \<le> fibonacci_recursive (n + 1)"
proof -
  consider "n \<le> 0" | "n = 1" | "2 \<le> n" by linarith
  then show ?thesis
  proof cases
    case 1
    then show ?thesis using fib_rec_ge0 [of "n + 1"] by (simp add: fib_rec_nonpos)
  next
    case 2
    have "fibonacci_recursive 2 = 1"
      using fib_rec_step [of 2] by (simp add: fib_rec_one fib_rec_nonpos)
    with 2 show ?thesis by (simp add: fib_rec_one)
  next
    case 3
    then have "fibonacci_recursive (n + 1) = fibonacci_recursive n + fibonacci_recursive (n - 1)"
      using fib_rec_step [of "n + 1"] by simp
    then show ?thesis using fib_rec_ge0 [of "n - 1"] by simp
  qed
qed

lemma fib_rec_le_add: "fibonacci_recursive j \<le> fibonacci_recursive (j + int d)"
proof (induction d)
  case 0
  then show ?case by simp
next
  case (Suc d)
  have "fibonacci_recursive (j + int d) \<le> fibonacci_recursive (j + int d + 1)"
    by (rule fib_rec_le_next)
  moreover have "j + int d + 1 = j + int (Suc d)" by simp
  ultimately have "fibonacci_recursive (j + int d) \<le> fibonacci_recursive (j + int (Suc d))"
    by (simp only:)
  with Suc show ?case by linarith
qed

lemma fib_rec_mono: "j \<le> k \<Longrightarrow> fibonacci_recursive j \<le> fibonacci_recursive k"
  using fib_rec_le_add [of j "nat (k - j)"] by simp

subsection \<open>The number of digits\<close>

lemma str_nat_nonempty: "str_nat m \<noteq> []"
  by (simp add: str_nat.simps [of m])

lemma length_str_nat_le: "0 < d \<Longrightarrow> (length (str_nat m) \<le> d) = (m < 10 ^ d)"
proof (induction m arbitrary: d rule: str_nat.induct)
  case (1 m)
  show ?case
  proof (cases "m < 10")
    case True
    have "(10::nat) ^ 1 \<le> 10 ^ d"
      using "1.prems" by (intro power_increasing) simp_all
    with True "1.prems" show ?thesis by (simp add: str_nat.simps [of m])
  next
    case False
    show ?thesis
    proof (cases "d = 1")
      case True
      with False show ?thesis
        by (simp add: str_nat.simps [of m] str_nat_nonempty)
    next
      case d: False
      with "1.prems" obtain e where e: "d = Suc e" "0 < e" by (cases d) auto
      have "(length (str_nat (m div 10)) \<le> e) = (m div 10 < 10 ^ e)"
        using False e by (intro "1.IH") simp_all
      moreover have "(m div 10 < 10 ^ e) = (m < 10 ^ Suc e)"
        by (simp add: div_less_iff_less_mult mult.commute)
      ultimately show ?thesis using False e by (simp add: str_nat.simps [of m])
    qed
  qed
qed

lemma length_str_nat_mono: "m \<le> m' \<Longrightarrow> length (str_nat m) \<le> length (str_nat m')"
proof -
  assume le: "m \<le> m'"
  have pos: "0 < length (str_nat m')" using str_nat_nonempty [of m'] by simp
  then have "m' < 10 ^ length (str_nat m')"
    using length_str_nat_le [of "length (str_nat m')" m'] by simp
  with le have "m < 10 ^ length (str_nat m')" by simp
  with pos show ?thesis using length_str_nat_le [of "length (str_nat m')" m] by simp
qed

lemma digits_of_fib_mono:
  "j \<le> k \<Longrightarrow> digits_of (fibonacci_recursive j) \<le> digits_of (fibonacci_recursive k)"
  unfolding digits_of_def
  using fib_rec_mono [of j k] fib_rec_ge0 [of j] fib_rec_ge0 [of k]
  by (intro length_str_nat_mono) simp

lemma digits_of_large: "0 < d \<Longrightarrow> 10 ^ d \<le> i \<Longrightarrow> d < digits_of i"
proof -
  assume d: "0 < d" and i: "10 ^ d \<le> i"
  have "(10::int) ^ d = int (10 ^ d)" by simp
  with i have "(10::nat) ^ d \<le> nat \<bar>i\<bar>" by linarith
  then have "\<not> nat \<bar>i\<bar> < 10 ^ d" by simp
  then show ?thesis
    using length_str_nat_le [OF d, of "nat \<bar>i\<bar>"] by (simp add: digits_of_def)
qed

subsection \<open>Growth of the evaluator\<close>

lemma fib_rec_add2:
  "0 \<le> k \<Longrightarrow>
   fibonacci_recursive (k + 2) = fibonacci_recursive (k + 1) + fibonacci_recursive k"
proof -
  assume "0 \<le> k"
  then have "2 \<le> k + 2" by simp
  then have "fibonacci_recursive (k + 2) =
      fibonacci_recursive (k + 2 - 1) + fibonacci_recursive (k + 2 - 2)"
    by (rule fib_rec_step)
  moreover have "k + 2 - 1 = k + 1" and "k + 2 - 2 = k" by simp_all
  ultimately show ?thesis by (simp only:)
qed

lemma fib_rec_five: "1 \<le> k \<Longrightarrow> 8 * fibonacci_recursive k \<le> fibonacci_recursive (k + 5)"
proof -
  assume k: "1 \<le> k"
  have e: "k + 1 + 2 = k + 3" "k + 1 + 1 = k + 2" "k + 2 + 2 = k + 4" "k + 2 + 1 = k + 3"
    "k + 3 + 2 = k + 5" "k + 3 + 1 = k + 4"
    by simp_all
  have s2: "fibonacci_recursive (k + 2) = fibonacci_recursive (k + 1) + fibonacci_recursive k"
    using k by (intro fib_rec_add2) simp
  have s3: "fibonacci_recursive (k + 3) = fibonacci_recursive (k + 2) + fibonacci_recursive (k + 1)"
    using fib_rec_add2 [of "k + 1"] k unfolding e by simp
  have s4: "fibonacci_recursive (k + 4) = fibonacci_recursive (k + 3) + fibonacci_recursive (k + 2)"
    using fib_rec_add2 [of "k + 2"] k unfolding e by simp
  have s5: "fibonacci_recursive (k + 5) = fibonacci_recursive (k + 4) + fibonacci_recursive (k + 3)"
    using fib_rec_add2 [of "k + 3"] k unfolding e by simp
  from s2 s3 s4 s5 fib_rec_le_next [of k] show ?thesis by linarith
qed

lemma fib_rec_pow8: "8 ^ m \<le> fibonacci_recursive (1 + 5 * int m)"
proof (induction m)
  case 0
  then show ?case by (simp add: fib_rec_one)
next
  case (Suc m)
  have "8 * fibonacci_recursive (1 + 5 * int m) \<le> fibonacci_recursive (1 + 5 * int m + 5)"
    by (rule fib_rec_five) simp
  moreover have "1 + 5 * int m + 5 = 1 + 5 * int (Suc m)" by simp
  ultimately show ?case using Suc by simp
qed

lemma fib_rec_pow10: "10 ^ (9 * j) \<le> fibonacci_recursive (1 + 50 * int j)"
proof -
  have "(10::int) ^ 9 \<le> 8 ^ 10" by simp
  then have "((10::int) ^ 9) ^ j \<le> (8 ^ 10) ^ j" by (intro power_mono) simp_all
  then have "(10::int) ^ (9 * j) \<le> 8 ^ (10 * j)" by (simp only: power_mult)
  also have "\<dots> \<le> fibonacci_recursive (1 + 5 * int (10 * j))" by (rule fib_rec_pow8)
  also have "1 + 5 * int (10 * j) = 1 + 50 * int j" by simp
  finally show ?thesis .
qed

lemma digits_of_fib_large: "0 < j \<Longrightarrow> 9 * j < digits_of (fibonacci_recursive (1 + 50 * int j))"
  by (intro digits_of_large fib_rec_pow10) simp

lemma too_long_24999: "int_max_str_digits < digits_of (fibonacci_recursive 24999)"
proof -
  have "9 * 478 < digits_of (fibonacci_recursive (1 + 50 * int 478))"
    by (rule digits_of_fib_large) simp
  moreover have "1 + 50 * int 478 = 23901" by simp
  ultimately have "4302 < digits_of (fibonacci_recursive 23901)" by simp
  moreover have "digits_of (fibonacci_recursive 23901) \<le> digits_of (fibonacci_recursive 24999)"
    by (rule digits_of_fib_mono) simp
  ultimately show ?thesis by (simp add: int_max_str_digits_def)
qed

subsection \<open>What one call of print does\<close>

lemma print_int_fits:
  "digits_of x \<le> int_max_str_digits \<Longrightarrow> print_int x e out = (None, out @ decimal x @ e)"
  by (simp add: print_int_def str_int_def print_end_def)

lemma print_int_too_long:
  "int_max_str_digits < digits_of x \<Longrightarrow> print_int x e out = (Some ValueError, out)"
  by (simp add: print_int_def str_int_def)

subsection \<open>What the producer writes\<close>

lemma fibonacci_loop_upto:
  "0 \<le> k \<Longrightarrow>
   fibonacci_loop [k .. m] (fibonacci_recursive k) (fibonacci_recursive (k + 1)) out =
   (if \<forall>j \<in> set [k .. m]. digits_of (fibonacci_recursive j) \<le> int_max_str_digits
    then None else Some ValueError,
    out @ concat (map (\<lambda>j. decimal (fibonacci_recursive j) @ '' '')
      (takeWhile (\<lambda>j. digits_of (fibonacci_recursive j) \<le> int_max_str_digits) [k .. m])))"
proof (induction k m arbitrary: out rule: upto.induct)
  case (1 i j)
  show ?case
  proof (cases "i \<le> j")
    case False
    then show ?thesis by simp
  next
    case True
    then have unfold: "[i .. j] = i # [i + 1 .. j]" by (rule upto_rec1)
    show ?thesis
    proof (cases "digits_of (fibonacci_recursive i) \<le> int_max_str_digits")
      case fits: True
      have step:
        "fibonacci_recursive i + fibonacci_recursive (i + 1) = fibonacci_recursive (i + 1 + 1)"
      proof -
        have "i + 1 + 1 = i + 2" by simp
        then show ?thesis using fib_rec_add2 [OF "1.prems"] by (simp only:)
      qed
      have "fibonacci_loop [i + 1 .. j]
              (fibonacci_recursive (i + 1)) (fibonacci_recursive (i + 1 + 1))
              (out @ decimal (fibonacci_recursive i) @ '' '') =
            (if \<forall>l \<in> set [i + 1 .. j]. digits_of (fibonacci_recursive l) \<le> int_max_str_digits
             then None else Some ValueError,
             (out @ decimal (fibonacci_recursive i) @ '' '') @
               concat (map (\<lambda>l. decimal (fibonacci_recursive l) @ '' '')
                 (takeWhile (\<lambda>l. digits_of (fibonacci_recursive l) \<le> int_max_str_digits)
                    [i + 1 .. j])))"
        using True "1.prems" by (intro "1.IH") auto
      with fits show ?thesis
        unfolding unfold by (simp add: step print_int_fits)
    next
      case False
      then have "int_max_str_digits < digits_of (fibonacci_recursive i)" by simp
      then show ?thesis
        unfolding unfold by (simp add: print_int_too_long)
    qed
  qed
qed

lemma fibonacci_run:
  "fibonacci n out =
   (if \<forall>j \<in> set (range_py n). digits_of (fibonacci_recursive j) \<le> int_max_str_digits
    then (None,
      out @ concat (map (\<lambda>j. decimal (fibonacci_recursive j) @ '' '') (range_py n)) @ newline)
    else (Some ValueError,
      out @ concat (map (\<lambda>j. decimal (fibonacci_recursive j) @ '' '')
        (takeWhile (\<lambda>j. digits_of (fibonacci_recursive j) \<le> int_max_str_digits)
           (range_py n)))))"
proof -
  have "fibonacci_loop (range_py n) 0 1 out =
    (if \<forall>j \<in> set (range_py n). digits_of (fibonacci_recursive j) \<le> int_max_str_digits
     then None else Some ValueError,
     out @ concat (map (\<lambda>j. decimal (fibonacci_recursive j) @ '' '')
       (takeWhile (\<lambda>j. digits_of (fibonacci_recursive j) \<le> int_max_str_digits)
          (range_py n))))"
    using fibonacci_loop_upto [of 0 "n - 1" out]
    by (simp add: range_py_def fib_rec_nonpos fib_rec_one)
  then show ?thesis
    by (simp add: fibonacci_def print_empty_def print_end_def takeWhile_eq_all_conv [THEN iffD2])
qed

lemma all_fit:
  assumes "digits_of (fibonacci_recursive k) \<le> int_max_str_digits"
  shows "\<forall>j \<in> set [i .. k]. digits_of (fibonacci_recursive j) \<le> int_max_str_digits"
proof
  fix j
  assume "j \<in> set [i .. k]"
  then have "j \<le> k" by simp
  then have "digits_of (fibonacci_recursive j) \<le> digits_of (fibonacci_recursive k)"
    by (rule digits_of_fib_mono)
  with assms show "digits_of (fibonacci_recursive j) \<le> int_max_str_digits" by simp
qed

lemma fibonacci_fits:
  assumes "digits_of (fibonacci_recursive (n - 1)) \<le> int_max_str_digits"
  shows "fibonacci n out =
    (None,
     out @ concat (map (\<lambda>j. decimal (fibonacci_recursive j) @ '' '') (range_py n)) @ newline)"
  using all_fit [OF assms, of 0] by (simp add: fibonacci_run range_py_def)

lemma join_py_trailing:
  "ws \<noteq> [] \<Longrightarrow> join_py sep ws @ sep = concat (map (\<lambda>w. w @ sep) ws)"
  by (induction sep ws rule: join_py.induct) simp_all

subsection \<open>Decimal numerals have no space and no line feed, and read back as their value\<close>

lemma length_decimal_digits: "length decimal_digits = 10"
  by (simp add: decimal_digits_def)

lemma distinct_decimal_digits: "distinct decimal_digits"
  by (simp add: decimal_digits_def)

lemma digit_char_in: "digit_char d \<in> set decimal_digits"
  by (simp add: digit_char_def length_decimal_digits)

lemma digit_char_not_space: "CHR '' '' \<noteq> digit_char d"
  using digit_char_in [of d] by (auto simp: decimal_digits_def)

lemma digit_char_not_minus: "CHR ''-'' \<noteq> digit_char d"
  using digit_char_in [of d] by (auto simp: decimal_digits_def)

lemma digit_char_not_newline: "CHR 0x0A \<noteq> digit_char d"
  using digit_char_in [of d] by (auto simp: decimal_digits_def)

lemma digit_value_digit_char: "d < 10 \<Longrightarrow> digit_value (digit_char d) = Some d"
  using map_of_zip_nth [of decimal_digits "[0 ..< 10]" d]
  by (simp add: digit_value_def digit_char_def length_decimal_digits distinct_decimal_digits)

lemma str_nat_no_space: "CHR '' '' \<notin> set (str_nat m)"
proof (induction m rule: str_nat.induct)
  case (1 m)
  then show ?case
    by (cases "m < 10") (simp_all add: str_nat.simps [of m] digit_char_not_space)
qed

lemma str_nat_no_minus: "CHR ''-'' \<notin> set (str_nat m)"
proof (induction m rule: str_nat.induct)
  case (1 m)
  then show ?case
    by (cases "m < 10") (simp_all add: str_nat.simps [of m] digit_char_not_minus)
qed

lemma str_nat_no_newline: "CHR 0x0A \<notin> set (str_nat m)"
proof (induction m rule: str_nat.induct)
  case (1 m)
  then show ?case
    by (cases "m < 10") (simp_all add: str_nat.simps [of m] digit_char_not_newline)
qed

lemma decimal_no_space: "CHR '' '' \<notin> set (decimal i)"
  by (simp add: decimal_def str_nat_no_space)

lemma decimal_no_newline: "CHR 0x0A \<notin> set (decimal i)"
  by (simp add: decimal_def str_nat_no_newline)

lemma read_digits_append:
  "read_digits acc (xs @ ys) =
     (case read_digits acc xs of None \<Rightarrow> None | Some m \<Rightarrow> read_digits m ys)"
  by (induction xs arbitrary: acc) (auto split: option.splits)

lemma read_digits_str_nat: "read_digits 0 (str_nat m) = Some m"
proof (induction m rule: str_nat.induct)
  case (1 m)
  show ?case
  proof (cases "m < 10")
    case True
    then show ?thesis by (simp add: str_nat.simps [of m] digit_value_digit_char)
  next
    case False
    with 1 have "read_digits 0 (str_nat (m div 10)) = Some (m div 10)" by simp
    with False show ?thesis
      by (simp add: str_nat.simps [of m] read_digits_append digit_value_digit_char)
  qed
qed

lemma read_nat_str_nat: "read_nat (str_nat m) = Some m"
  by (simp add: read_nat_def str_nat_nonempty read_digits_str_nat)

lemma read_int_decimal: "read_int (decimal i) = Some i"
proof (cases "i < 0")
  case True
  then show ?thesis by (simp add: read_int_def decimal_def read_nat_str_nat)
next
  case False
  obtain c cs where s: "str_nat (nat i) = c # cs"
    using str_nat_nonempty [of "nat i"] by (cases "str_nat (nat i)") auto
  then have "c \<noteq> CHR ''-''"
    using str_nat_no_minus [of "nat i"] by auto
  moreover have "read_nat (c # cs) = Some (nat i)"
    using read_nat_str_nat [of "nat i"] s by simp
  ultimately show ?thesis using False s by (simp add: read_int_def decimal_def)
qed

subsection \<open>Splitting the producer's text at the spaces\<close>

lemma split_py_word:
  "c \<notin> set w \<Longrightarrow> split_py c (w @ c # rest) = w # split_py c rest"
  by (induction w) auto

lemma split_py_words:
  "\<forall>w \<in> set ws. c \<notin> set w \<Longrightarrow>
   split_py c (concat (map (\<lambda>w. w @ [c]) ws) @ rest) = ws @ split_py c rest"
  by (induction ws) (simp_all add: split_py_word)

lemma split_shown:
  "split_py CHR '' '' (concat (map (\<lambda>j. decimal (fibonacci_recursive j) @ '' '') ks) @ rest) =
   map (\<lambda>j. decimal (fibonacci_recursive j)) ks @ split_py CHR '' '' rest"
proof -
  let ?ws = "map (\<lambda>j. decimal (fibonacci_recursive j)) ks"
  have "concat (map (\<lambda>j. decimal (fibonacci_recursive j) @ '' '') ks) =
        concat (map (\<lambda>w. w @ [CHR '' '']) ?ws)"
    by (simp add: comp_def)
  then show ?thesis
    using split_py_words [of ?ws "CHR '' ''" rest] by (simp add: decimal_no_space)
qed

text \<open>
  The words of the producer's output: the numerals of the values it printed, and
  then what follows the last space: the line feed after a return, nothing after an
  exception.
\<close>

lemma split_fibonacci:
  "split_py CHR '' '' (snd (fibonacci n [])) =
   map (\<lambda>j. decimal (fibonacci_recursive j))
     (takeWhile (\<lambda>j. digits_of (fibonacci_recursive j) \<le> int_max_str_digits) (range_py n)) @
   [if fst (fibonacci n []) = None then newline else []]"
proof (cases "\<forall>j \<in> set (range_py n). digits_of (fibonacci_recursive j) \<le> int_max_str_digits")
  case True
  then have tw:
    "takeWhile (\<lambda>j. digits_of (fibonacci_recursive j) \<le> int_max_str_digits) (range_py n)
      = range_py n"
    by (simp add: takeWhile_eq_all_conv)
  have run: "fibonacci n [] =
    (None, concat (map (\<lambda>j. decimal (fibonacci_recursive j) @ '' '') (range_py n)) @ newline)"
    using True by (simp add: fibonacci_run)
  have "split_py CHR '' '' newline = [newline]"
    by (simp add: newline_def)
  then show ?thesis
    unfolding tw run using split_shown [of "range_py n" newline] by simp
next
  case False
  then have run: "fibonacci n [] =
    (Some ValueError, concat (map (\<lambda>j. decimal (fibonacci_recursive j) @ '' '')
      (takeWhile (\<lambda>j. digits_of (fibonacci_recursive j) \<le> int_max_str_digits) (range_py n))))"
    by (subst fibonacci_run) simp
  show ?thesis
    unfolding run
    using split_shown [of "takeWhile (\<lambda>j. digits_of (fibonacci_recursive j) \<le> int_max_str_digits)
      (range_py n)" "[]"]
    by simp
qed

lemma takeWhile_fits_prefix:
  assumes "0 \<le> k" and "k < n"
    and "digits_of (fibonacci_recursive k) \<le> int_max_str_digits"
  shows "takeWhile (\<lambda>j. digits_of (fibonacci_recursive j) \<le> int_max_str_digits) (range_py n) =
    [0 .. k] @ takeWhile (\<lambda>j. digits_of (fibonacci_recursive j) \<le> int_max_str_digits) [k + 1 .. n - 1]"
proof -
  let ?P = "\<lambda>j. digits_of (fibonacci_recursive j) \<le> int_max_str_digits"
  have split: "[0 .. n - 1] = [0 .. k] @ [k + 1 .. n - 1]"
    using assms(1,2) by (intro upto_split2) simp_all
  have "takeWhile ?P ([0 .. k] @ [k + 1 .. n - 1]) = [0 .. k] @ takeWhile ?P [k + 1 .. n - 1]"
  proof (rule takeWhile_append2)
    fix j
    assume "j \<in> set [0 .. k]"
    with all_fit [OF assms(3), of 0] show "?P j" by blast
  qed
  then show ?thesis
    unfolding range_py_def by (simp only: split)
qed

lemma takeWhile_too_long_length:
  assumes "0 \<le> k" and "k < n"
    and "int_max_str_digits < digits_of (fibonacci_recursive k)"
  shows "length (takeWhile (\<lambda>j. digits_of (fibonacci_recursive j) \<le> int_max_str_digits)
    (range_py n)) \<le> nat k"
proof (rule ccontr)
  let ?P = "\<lambda>j. digits_of (fibonacci_recursive j) \<le> int_max_str_digits"
  assume "\<not> length (takeWhile ?P (range_py n)) \<le> nat k"
  then have lt: "nat k < length (takeWhile ?P (range_py n))" by simp
  then have "takeWhile ?P (range_py n) ! nat k = range_py n ! nat k"
    by (rule takeWhile_nth)
  with assms(1,2) have "takeWhile ?P (range_py n) ! nat k = k"
    by (simp add: range_py_nth)
  with lt have "k \<in> set (takeWhile ?P (range_py n))"
    using nth_mem [of "nat k" "takeWhile ?P (range_py n)"] by simp
  then have "?P k" by (rule set_takeWhileD [THEN conjunct2])
  with assms(3) show False by simp
qed

lemma fibonacci_raises:
  assumes "0 \<le> k" and "k < n"
    and "int_max_str_digits < digits_of (fibonacci_recursive k)"
  shows "fst (fibonacci n out) = Some ValueError"
proof -
  have "k \<in> set (range_py n)" using assms(1,2) by (simp add: set_range_py)
  with assms(3) have
    "\<not> (\<forall>j \<in> set (range_py n). digits_of (fibonacci_recursive j) \<le> int_max_str_digits)"
    by (auto simp: not_le)
  then show ?thesis by (simp add: fibonacci_run)
qed

lemma fibonacci_raises_no_newline:
  assumes "fst (fibonacci n []) = Some ValueError"
  shows "CHR 0x0A \<notin> set (snd (fibonacci n []))"
proof -
  let ?P = "\<lambda>j. digits_of (fibonacci_recursive j) \<le> int_max_str_digits"
  have notall: "\<not> (\<forall>j \<in> set (range_py n). ?P j)"
  proof
    assume "\<forall>j \<in> set (range_py n). ?P j"
    then have "fst (fibonacci n []) = None" by (simp add: fibonacci_run)
    with assms show False by simp
  qed
  have "fibonacci n [] =
    (Some ValueError, [] @ concat (map (\<lambda>j. decimal (fibonacci_recursive j) @ '' '')
      (takeWhile ?P (range_py n))))"
    by (subst fibonacci_run) (rule if_not_P [OF notall])
  then show ?thesis by (simp add: decimal_no_newline)
qed

lemma fibonacci_raises_no_value:
  assumes "0 \<le> k" and "k < n"
    and "int_max_str_digits < digits_of (fibonacci_recursive k)"
  shows "printed_value (snd (fibonacci n [])) (nat k) = None"
proof -
  let ?ks = "takeWhile (\<lambda>j. digits_of (fibonacci_recursive j) \<le> int_max_str_digits) (range_py n)"
  have raised: "fst (fibonacci n []) = Some ValueError"
    using assms by (rule fibonacci_raises)
  then have words: "split_py CHR '' '' (snd (fibonacci n [])) =
      map (\<lambda>j. decimal (fibonacci_recursive j)) ?ks @ [[]]"
    by (simp add: split_fibonacci)
  have len: "length ?ks \<le> nat k"
    using assms by (rule takeWhile_too_long_length)
  show ?thesis
  proof (cases "nat k = length ?ks")
    case True
    then show ?thesis
      by (simp add: printed_value_def nth_word_def words nth_append read_int_def)
  next
    case False
    with len have "length ?ks < nat k" by simp
    then show ?thesis
      by (simp add: printed_value_def nth_word_def words)
  qed
qed

section \<open>Properties of the printed text\<close>

text \<open>
  C1. Run on an empty output, the main block returns without an exception and
  writes exactly the four lines of the specification's section 6, byte for byte:
  the line \<^verbatim>\<open>Iterative Fibonacci:\<close>, the ten numbers each followed by one space
  (so the line ends with a space before its line feed), the line
  \<^verbatim>\<open>Recursive Fibonacci:\<close>, and the same ten numbers again.
\<close>

theorem main_block_output:
  "main_block [] =
     (None,
      ''Iterative Fibonacci:'' @ [CHR 0x0A] @
      ''0 1 1 2 3 5 8 13 21 34 '' @ [CHR 0x0A] @
      ''Recursive Fibonacci:'' @ [CHR 0x0A] @
      ''0 1 1 2 3 5 8 13 21 34 '' @ [CHR 0x0A])"
  by code_simp

text \<open>
  C3, as the program has it. For every integer \<open>n \<ge> 0\<close> whose last value, the
  evaluator's result at \<open>n - 1\<close>, has at most \<open>int_max_str_digits\<close> (4300) decimal
  digits, the producer returns and appends to the output exactly \<open>n\<close> integers
  separated by single spaces, then a trailing space and a line feed; for \<open>n = 0\<close>
  it appends the line feed alone. The values are non-decreasing, so the bound on
  the last one bounds them all.
\<close>

theorem fibonacci_output_shape_within_limit:
  assumes "0 \<le> n"
    and "digits_of (fibonacci_recursive (n - 1)) \<le> int_max_str_digits"
  shows "\<exists>xs. length xs = nat n \<and>
           fibonacci n out =
             (None,
              out @ (if n = 0 then newline
                     else join_py '' '' (map decimal xs) @ '' '' @ newline))"
proof (intro exI conjI)
  let ?xs = "map fibonacci_recursive (range_py n)"
  show "length ?xs = nat n"
    by (simp add: length_range_py)
  show "fibonacci n out =
          (None,
           out @ (if n = 0 then newline
                  else join_py '' '' (map decimal ?xs) @ '' '' @ newline))"
  proof (cases "n = 0")
    case True
    then show ?thesis
      using fibonacci_fits [OF assms(2), of out] by (simp add: range_py_empty)
  next
    case False
    with assms(1) have "map decimal ?xs \<noteq> []"
      using length_range_py [of n] by auto
    then have "join_py '' '' (map decimal ?xs) @ '' '' =
          concat (map (\<lambda>w. w @ '' '') (map decimal ?xs))"
      by (rule join_py_trailing)
    with False show ?thesis
      using fibonacci_fits [OF assms(2), of out] by (simp add: comp_def)
  qed
qed

theorem fibonacci_output_shape_within_limit_witness:
  "(0::int) \<le> 3 \<and> digits_of (fibonacci_recursive (3 - 1)) \<le> int_max_str_digits \<and>
   (\<exists>xs. length xs = 3 \<and>
      fibonacci 3 ''ab'' =
        (None, ''ab'' @ join_py '' '' (map decimal xs) @ '' '' @ newline)) \<and>
   (0::int) \<le> 0 \<and> digits_of (fibonacci_recursive (0 - 1)) \<le> int_max_str_digits \<and>
   fibonacci 0 ''ab'' = (None, ''ab'' @ newline)"
proof -
  have a: "digits_of (fibonacci_recursive (3 - 1)) \<le> int_max_str_digits"
    and b: "digits_of (fibonacci_recursive (0 - 1)) \<le> int_max_str_digits"
    by code_simp+
  from a b
    fibonacci_output_shape_within_limit [OF _ a, of "''ab''"]
    fibonacci_output_shape_within_limit [OF _ b, of "''ab''"]
  show ?thesis by force
qed

text \<open>
  C3 does not hold for every \<open>n \<ge> 0\<close>. Called with 25000, the producer reaches
  a value of more than 4300 digits, the conversion in \<^verbatim>\<open>print\<close> raises
  \<^verbatim>\<open>ValueError\<close>, and the final \<^verbatim>\<open>print()\<close> never runs: the output has no
  line feed at all.
\<close>

theorem fibonacci_output_shape_counterexample:
  "fst (fibonacci 25000 []) = Some ValueError \<and>
   CHR 0x0A \<notin> set (snd (fibonacci 25000 []))"
proof -
  have "fst (fibonacci 25000 []) = Some ValueError"
    using too_long_24999 by (intro fibonacci_raises [of 24999]) simp_all
  then show ?thesis by (simp add: fibonacci_raises_no_newline)
qed

text \<open>
  C4, as the program has it. For every integer \<open>n \<ge> 1\<close> and every \<open>k\<close> with
  \<open>0 \<le> k < n\<close> for which the evaluator's result at \<open>k\<close> has at most
  \<open>int_max_str_digits\<close> (4300) decimal digits, the \<open>k\<close>-th value (counted from 0)
  printed by the producer called with \<open>n\<close> is the evaluator's result at \<open>k\<close>:
  the \<open>k\<close>-th word of the text is the numeral of that result, and read as an
  integer it is that result. This holds also when a later value is too long and
  the producer raises.
\<close>

theorem fibonacci_agrees_with_recursive_within_limit:
  assumes "1 \<le> n" and "0 \<le> k" and "k < n"
    and "digits_of (fibonacci_recursive k) \<le> int_max_str_digits"
  shows "nth_word (split_py CHR '' '' (snd (fibonacci n []))) (nat k) =
           Some (decimal (fibonacci_recursive k)) \<and>
         printed_value (snd (fibonacci n [])) (nat k) = Some (fibonacci_recursive k)"
proof -
  let ?P = "\<lambda>j. digits_of (fibonacci_recursive j) \<le> int_max_str_digits"
  let ?f = "\<lambda>j. decimal (fibonacci_recursive j)"
  have tw: "takeWhile ?P (range_py n) = [0 .. k] @ takeWhile ?P [k + 1 .. n - 1]"
    using assms(2-4) by (rule takeWhile_fits_prefix)
  have len: "nat k < length [0 .. k]" using assms(2) by simp
  have kth: "[0 .. k] ! nat k = k" using assms(2) by simp
  have "nth_word (split_py CHR '' '' (snd (fibonacci n []))) (nat k) = Some (?f k)"
    using len kth by (simp add: split_fibonacci tw nth_word_def nth_append)
  then show ?thesis by (simp add: printed_value_def read_int_decimal)
qed

theorem fibonacci_agrees_with_recursive_within_limit_witness:
  "(1::int) \<le> 5 \<and> (0::int) \<le> 4 \<and> (4::int) < 5 \<and>
   digits_of (fibonacci_recursive 4) \<le> int_max_str_digits \<and>
   nth_word (split_py CHR '' '' (snd (fibonacci 5 []))) 4 = Some ''3'' \<and>
   printed_value (snd (fibonacci 5 [])) 4 = Some 3 \<and>
   fibonacci_recursive 4 = 3"
proof -
  have v: "fibonacci_recursive 4 = 3" by code_simp
  have s: "decimal 3 = ''3''" by code_simp
  have d: "digits_of (fibonacci_recursive 4) \<le> int_max_str_digits" by code_simp
  from fibonacci_agrees_with_recursive_within_limit [of 5 4] v s d show ?thesis by force
qed

text \<open>
  C4 does not hold for every \<open>k < n\<close>. Called with 25000, the producer raises
  \<^verbatim>\<open>ValueError\<close> before it prints a value with index 24999: its output has no
  such value.
\<close>

theorem fibonacci_agrees_with_recursive_counterexample:
  "fst (fibonacci 25000 []) = Some ValueError \<and>
   printed_value (snd (fibonacci 25000 [])) 24999 = None"
proof -
  have "fst (fibonacci 25000 []) = Some ValueError"
    using too_long_24999 by (intro fibonacci_raises [of 24999]) simp_all
  moreover have "printed_value (snd (fibonacci 25000 [])) (nat 24999) = None"
    using too_long_24999 by (intro fibonacci_raises_no_value) simp_all
  ultimately show ?thesis by simp
qed

text \<open>
  C7. For every negative integer \<open>n\<close> the producer's loop runs no iteration and
  prints no number: the producer returns without an exception and appends the
  line feed alone, exactly as for \<open>n = 0\<close>.
\<close>

theorem fibonacci_negative:
  assumes "n < 0"
  shows "range_py n = [] \<and> fibonacci n out = (None, out @ newline) \<and>
         fibonacci n out = fibonacci 0 out"
  using assms by (simp add: fibonacci_run range_py_empty)

theorem fibonacci_negative_witness:
  "(- 3::int) < 0 \<and> range_py (- 3) = [] \<and>
   fibonacci (- 3) ''ab'' = (None, ''ab'' @ newline) \<and>
   fibonacci (- 3) ''ab'' = fibonacci 0 ''ab''"
proof -
  have "(- 3::int) < 0" by simp
  from this fibonacci_negative [OF this, of "''ab''"] show ?thesis by blast
qed

end
